theory Spec2Isabelle
  imports Main "HOL-Library.Word"
begin

section \<open>Reorg-guarded log query: \<^verbatim>\<open>rpc/handler/eth_logs_v2.go\<close>\<close>

subsection \<open>Data\<close>

text \<open>
  Go's \<open>uint64\<close> is a 64-bit word read with \<open>uint\<close>; \<open>types.BlockNumber\<close> is an
  \<open>int64\<close>, the same 64 bits read with \<open>sint\<close>, so the conversions \<open>uint64(x)\<close> and
  \<open>types.BlockNumber(x)\<close> keep the bits as they are, and \<open>+\<close> wraps around.
\<close>

type_synonym uint64 = "64 word"
type_synonym uint32 = "32 word"
type_synonym BlockNumber = "64 word"
type_synonym Hash = "256 word"
type_synonym Address = "160 word"

text \<open>
  \<open>types.FilterQuery\<close>: a nil pointer field is \<open>None\<close>, a nil slice is \<open>[]\<close>.
\<close>

record FilterQuery =
  BlockHash :: "Hash option"
  FromBlock :: "BlockNumber option"
  ToBlock :: "BlockNumber option"
  Addresses :: "Address list"
  Topics :: "Hash list list"

text \<open>
  Modelled from the spec: \<open>store.LogFilterV2\<close> and \<open>store.ParseEthLogFilterV2\<close> are
  declared in the store package, which is not among the sources. The spec has the DB
  sub-filter cover the block range it is built for, so the record keeps the two bounds
  the handler passes, with the query and the network id it passes along.
\<close>

record LogFilterV2 =
  BlockFrom :: uint64
  BlockTo :: uint64
  Query :: FilterQuery
  Network :: uint32

definition ParseEthLogFilterV2 :: "uint64 \<Rightarrow> uint64 \<Rightarrow> FilterQuery \<Rightarrow> uint32 \<Rightarrow> LogFilterV2" where
  "ParseEthLogFilterV2 blockFrom blockTo flt networkId =
     \<lparr>BlockFrom = blockFrom, BlockTo = blockTo, Query = flt, Network = networkId\<rparr>"

text \<open>\<open>types.Log\<close>, with the fields the ordering of a result is read from.\<close>

record Log =
  LogAddress :: Address
  LogTopics :: "Hash list"
  BlockNumber :: uint64
  LogIndex :: nat

text \<open>
  \<open>types.Block\<close>: the number of a block that the node has found is a big integer, not
  negative, and \<open>Uint64\<close> keeps its low 64 bits.
\<close>

record Block =
  Number :: nat

definition Uint64 :: "nat \<Rightarrow> uint64" where
  "Uint64 n = word_of_nat n"

text \<open>
  Errors are values. \<open>ErrGetLogsTimeout\<close> is the store package's named error,
  \<open>errors_New\<close> is \<open>errors.New\<close>. \<open>nil_dereference\<close> stands for the panic of
  \<open>*filter.BlockHash\<close> on a nil pointer.
\<close>

datatype error = ErrGetLogsTimeout | errors_New string | nil_dereference

subsection \<open>The collaborators\<close>

text \<open>
  The handler talks to the store, to the full node and to the clock of its context. Every
  such call is written to a trace, and what a call answers is a function of the trace so
  far: the answers may change from one call to the next in any way, as they do when a
  reorg is processed or the deadline passes between two calls.
\<close>

datatype call =
    GetReorgVersionCall
  | MaxEpochCall
  | GetLogsV2Call LogFilterV2
  | BlockByHashCall Hash
  | LogsCall FilterQuery
  | DoneCheck

text \<open>
  \<open>'d\<close> is the type of a stored log; \<open>ToEthLog\<close> is \<open>ToCfxLog\<close> followed by
  \<open>ethbridge.ConvertLog\<close>, neither of which is among the sources. A Go result
  \<open>(v, err)\<close> of a collaborator is \<open>Inl err\<close> or \<open>Inr v\<close>: the handler reads \<open>v\<close>
  only when \<open>err\<close> is nil.
\<close>

record 'd env =
  GetReorgVersion :: "call list \<Rightarrow> error + int"
  MaxEpoch :: "call list \<Rightarrow> error + (uint64 \<times> bool)"
  GetLogsV2 :: "call list \<Rightarrow> LogFilterV2 \<Rightarrow> error + 'd list"
  BlockByHash :: "call list \<Rightarrow> Hash \<Rightarrow> error + Block option"
  Logs :: "call list \<Rightarrow> FilterQuery \<Rightarrow> error + Log list"
  Done :: "call list \<Rightarrow> bool"
  ToEthLog :: "'d \<Rightarrow> Log"

subsection \<open>Splitting the filter\<close>

text \<open>
  The handler's store and the node client are reached through \<open>e\<close>, its field
  \<open>networkId\<close> is a parameter; the Go parameter \<open>filter\<close> is written \<open>flt\<close>, the
  name being that of a list function, and is taken to be a filter, not a nil pointer. The
  split functions return Go's triple \<open>(dbFilter, fnFilter, err)\<close> as it is, a nil
  pointer being \<open>None\<close>, together with the trace. The range split makes no call: it
  has no use for its parameter \<open>eth\<close>, which is left out.
\<close>

type_synonym split = "LogFilterV2 option \<times> FilterQuery option \<times> error option \<times> call list"

definition splitLogFilterByBlockRange :: "uint32 \<Rightarrow> FilterQuery \<Rightarrow> uint64 \<Rightarrow> call list \<Rightarrow> split" where
  "splitLogFilterByBlockRange networkId flt maxBlock t =
     (case FromBlock flt of
        None \<Rightarrow> (None, Some flt, None, t)
      | Some fromBlock \<Rightarrow>
          if sint fromBlock < 0 then (None, Some flt, None, t)
          else
            (case ToBlock flt of
               None \<Rightarrow> (None, Some flt, None, t)
             | Some toBlock \<Rightarrow>
                 if sint toBlock < 0 then (None, Some flt, None, t)
                 else
                   let blockFrom = fromBlock; blockTo = toBlock in
                   if blockFrom > maxBlock then (None, Some flt, None, t)
                   else if blockTo \<le> maxBlock then
                     (Some (ParseEthLogFilterV2 blockFrom blockTo flt networkId), None, None, t)
                   else
                     let dbFilter = ParseEthLogFilterV2 blockFrom maxBlock flt networkId;
                         fnBlockFrom = maxBlock + 1;
                         fnFilter = \<lparr>BlockHash = None, FromBlock = Some fnBlockFrom,
                                     ToBlock = ToBlock flt, Addresses = Addresses flt,
                                     Topics = Topics flt\<rparr>
                     in (Some dbFilter, Some fnFilter, None, t)))"

definition splitLogFilterByBlockHash :: "'d env \<Rightarrow> uint32 \<Rightarrow> FilterQuery \<Rightarrow> uint64 \<Rightarrow> call list \<Rightarrow> split" where
  "splitLogFilterByBlockHash e networkId flt maxBlock t =
     (case BlockHash flt of
        None \<Rightarrow> (None, None, Some nil_dereference, t)
      | Some h \<Rightarrow>
          (case BlockByHash e t h of
             Inl err \<Rightarrow> (None, None, Some err, t @ [BlockByHashCall h])
           | Inr None \<Rightarrow> (None, None, Some (errors_New ''unknown block''), t @ [BlockByHashCall h])
           | Inr (Some block) \<Rightarrow>
               let bn = Uint64 (Number block) in
               if bn > maxBlock then (None, Some flt, None, t @ [BlockByHashCall h])
               else (Some (ParseEthLogFilterV2 bn bn flt networkId), None, None,
                     t @ [BlockByHashCall h])))"

definition splitLogFilter :: "'d env \<Rightarrow> uint32 \<Rightarrow> FilterQuery \<Rightarrow> call list \<Rightarrow> split" where
  "splitLogFilter e networkId flt t =
     (case MaxEpoch e t of
        Inl err \<Rightarrow> (None, None, Some err, t @ [MaxEpochCall])
      | Inr (maxBlock, ok) \<Rightarrow>
          if \<not> ok then (None, Some flt, None, t @ [MaxEpochCall])
          else if BlockHash flt \<noteq> None then
            splitLogFilterByBlockHash e networkId flt maxBlock (t @ [MaxEpochCall])
          else splitLogFilterByBlockRange networkId flt maxBlock (t @ [MaxEpochCall]))"

subsection \<open>One attempt\<close>

text \<open>
  \<open>getLogsReorgGuard\<close> returns Go's triple \<open>(logs, hitStore, err)\<close> and the trace. The
  slice \<open>logs\<close> starts nil and is appended to; a nil slice is the empty list.
\<close>

type_synonym result = "Log list \<times> bool \<times> error option \<times> call list"

definition getLogsReorgGuard :: "'d env \<Rightarrow> uint32 \<Rightarrow> FilterQuery \<Rightarrow> call list \<Rightarrow> result" where
  "getLogsReorgGuard e networkId flt t =
     (case splitLogFilter e networkId flt t of
        (dbFilter, fnFilter, Some err, t1) \<Rightarrow> ([], False, Some err, t1)
      | (dbFilter, fnFilter, None, t1) \<Rightarrow>
          (case (case dbFilter of
                   None \<Rightarrow> Inr ([], t1)
                 | Some dbf \<Rightarrow>
                     (case GetLogsV2 e t1 dbf of
                        Inl err \<Rightarrow> Inl (err, t1 @ [GetLogsV2Call dbf])
                      | Inr dbLogs \<Rightarrow> Inr (map (ToEthLog e) dbLogs, t1 @ [GetLogsV2Call dbf])))
           of
             Inl (err, t2) \<Rightarrow> ([], False, Some err, t2)
           | Inr (logs, t2) \<Rightarrow>
               (case fnFilter of
                  None \<Rightarrow> (logs, dbFilter \<noteq> None, None, t2)
                | Some fnf \<Rightarrow>
                    (case Logs e t2 fnf of
                       Inl err \<Rightarrow> ([], False, Some err, t2 @ [LogsCall fnf])
                     | Inr fnLogs \<Rightarrow> (logs @ fnLogs, dbFilter \<noteq> None, None, t2 @ [LogsCall fnf])))))"

subsection \<open>The retry loop\<close>

text \<open>
  The \<open>for\<close> loop of \<open>GetLogs\<close> has no bound of its own: it runs for as long as the
  version keeps changing and the deadline has not passed. A run that never returns is
  \<open>None\<close>.
\<close>

partial_function (option) GetLogs_loop ::
  "'d env \<Rightarrow> uint32 \<Rightarrow> FilterQuery \<Rightarrow> int \<Rightarrow> call list \<Rightarrow> result option" where
  "GetLogs_loop e networkId flt lastReorgVersion t =
     (case getLogsReorgGuard e networkId flt t of
        (logs, hitStore, Some err, t1) \<Rightarrow> Some ([], False, Some err, t1)
      | (logs, hitStore, None, t1) \<Rightarrow>
          (case GetReorgVersion e t1 of
             Inl err \<Rightarrow> Some ([], False, Some err, t1 @ [GetReorgVersionCall])
           | Inr reorgVersion \<Rightarrow>
               if reorgVersion = lastReorgVersion
               then Some (logs, hitStore, None, t1 @ [GetReorgVersionCall])
               else if Done e (t1 @ [GetReorgVersionCall])
               then Some ([], False, Some ErrGetLogsTimeout, t1 @ [GetReorgVersionCall, DoneCheck])
               else GetLogs_loop e networkId flt reorgVersion
                      (t1 @ [GetReorgVersionCall, DoneCheck])))"

definition GetLogs :: "'d env \<Rightarrow> uint32 \<Rightarrow> FilterQuery \<Rightarrow> call list \<Rightarrow> result option" where
  "GetLogs e networkId flt t =
     (case GetReorgVersion e t of
        Inl err \<Rightarrow> Some ([], False, Some err, t @ [GetReorgVersionCall])
      | Inr lastReorgVersion \<Rightarrow>
          GetLogs_loop e networkId flt lastReorgVersion (t @ [GetReorgVersionCall]))"

section \<open>Cluster manager: \<^verbatim>\<open>node/manager.go\<close>\<close>

subsection \<open>Nodes, ring and manager\<close>

text \<open>
  Modelled from the spec: the \<open>Node\<close> struct and \<open>NewNode\<close> are declared in a file that
  is not among the sources. The spec gives a node a name and a url, fixed at construction,
  and has it take part in the hash ring as a member under that name.
\<close>

record Node =
  name :: string
  url :: string

definition NewNode :: "string \<Rightarrow> string \<Rightarrow> Node" where
  "NewNode nodeName u = \<lparr>name = nodeName, url = u\<rparr>"

text \<open>
  Modelled from the spec: the hash ring is the library \<open>consistent\<close>, which is not among
  the sources. By the spec's contract it holds a set of members, each under its stable
  name; \<open>New\<close> adds the members it is given, \<open>Add\<close> adds a member unless its name is
  there, \<open>Remove\<close> takes a name out. What \<open>LocateKey\<close> answers is left to a parameter.
\<close>

type_synonym ring = "string \<rightharpoonup> Node"

definition consistent_New :: "Node list \<Rightarrow> ring" where
  "consistent_New members = fold (\<lambda>member r. r(name member \<mapsto> member)) members Map.empty"

definition consistent_Add :: "ring \<Rightarrow> Node \<Rightarrow> ring" where
  "consistent_Add r member = (if r (name member) \<noteq> None then r else r(name member \<mapsto> member))"

definition consistent_Remove :: "ring \<Rightarrow> string \<Rightarrow> ring" where
  "consistent_Remove r nodeName = (if r nodeName = None then r else r(nodeName := None))"

text \<open>
  The \<open>Manager\<close> struct, with the state of the resolver in place of the interface value;
  \<open>'r\<close> is the type of that state. The lock has no field: every operation below is one
  step on the whole record, which is what holding the lock for the whole operation gives.
\<close>

record 'r Manager =
  nodes :: "string \<rightharpoonup> Node"
  hashRing :: ring
  resolver :: 'r
  nodeName2Epochs :: "string \<rightharpoonup> uint64"
  midEpoch :: uint64

text \<open>
  What the manager calls and the sources do not hold: \<open>util.Url2NodeName\<close>,
  \<open>xxhash.Sum64\<close>, the ring's \<open>LocateKey\<close>, and the two methods of the
  \<open>RepartitionResolver\<close> interface. Modelled from the spec: \<open>Get\<close> is a query of the
  resolver that answers a name and whether there is one, \<open>Put\<close> gives the resolver's next
  state.
\<close>

record 'r deps =
  Url2NodeName :: "string \<Rightarrow> string"
  Sum64 :: "8 word list \<Rightarrow> uint64"
  LocateKey :: "ring \<Rightarrow> 8 word list \<Rightarrow> Node option"
  resolver_Get :: "'r \<Rightarrow> uint64 \<Rightarrow> string \<times> bool"
  resolver_Put :: "'r \<Rightarrow> uint64 \<Rightarrow> string \<Rightarrow> 'r"

subsection \<open>Operations\<close>

text \<open>
  The loop of \<open>NewManagerWithRepartition\<close> over the urls, on the node map and the slice
  \<open>members\<close>.
\<close>

fun NewManager_loop ::
  "'r deps \<Rightarrow> string list \<Rightarrow> (string \<rightharpoonup> Node) \<Rightarrow> Node list \<Rightarrow> (string \<rightharpoonup> Node) \<times> Node list" where
  "NewManager_loop d [] ns members = (ns, members)"
| "NewManager_loop d (u # urls) ns members =
     (let nodeName = Url2NodeName d u in
      if ns nodeName = None then
        let node = NewNode nodeName u in
        NewManager_loop d urls (ns(nodeName \<mapsto> node)) (members @ [node])
      else NewManager_loop d urls ns members)"

definition NewManagerWithRepartition :: "'r deps \<Rightarrow> string list \<Rightarrow> 'r \<Rightarrow> 'r Manager" where
  "NewManagerWithRepartition d urls res =
     (case NewManager_loop d urls Map.empty [] of
        (ns, members) \<Rightarrow>
          \<lparr>nodes = ns, hashRing = consistent_New members, resolver = res,
           nodeName2Epochs = Map.empty, midEpoch = 0\<rparr>)"

definition Add :: "'r deps \<Rightarrow> 'r Manager \<Rightarrow> string \<Rightarrow> 'r Manager" where
  "Add d m u =
     (let nodeName = Url2NodeName d u in
      if nodes m nodeName = None then
        let node = NewNode nodeName u in
        m\<lparr>nodes := (nodes m)(nodeName \<mapsto> node), hashRing := consistent_Add (hashRing m) node\<rparr>
      else m)"

definition Remove :: "'r deps \<Rightarrow> 'r Manager \<Rightarrow> string \<Rightarrow> 'r Manager" where
  "Remove d m u =
     (let nodeName = Url2NodeName d u in
      case nodes m nodeName of
        Some node \<Rightarrow>
          m\<lparr>nodes := (nodes m)(nodeName := None),
            nodeName2Epochs := (nodeName2Epochs m)(nodeName := None),
            hashRing := consistent_Remove (hashRing m) nodeName\<rparr>
      | None \<Rightarrow> m)"

definition Get :: "'r deps \<Rightarrow> 'r Manager \<Rightarrow> string \<Rightarrow> Node option" where
  "Get d m u = nodes m (Url2NodeName d u)"

text \<open>
  \<open>List\<close> ranges over a Go map, in no order that can be relied on: its result is read
  as the set of its elements.
\<close>

definition List :: "'r Manager \<Rightarrow> Node set" where
  "List m = ran (nodes m)"

text \<open>
  \<open>Distribute\<close> returns the node, nil being \<open>None\<close>, and the manager, whose resolver
  \<open>Put\<close> may have changed.
\<close>

definition Distribute :: "'r deps \<Rightarrow> 'r Manager \<Rightarrow> 8 word list \<Rightarrow> Node option \<times> 'r Manager" where
  "Distribute d m key =
     (let k = Sum64 d key in
      case resolver_Get d (resolver m) k of
        (nm, True) \<Rightarrow> (nodes m nm, m)
      | (nm, False) \<Rightarrow>
          (case LocateKey d (hashRing m) key of
             None \<Rightarrow> (None, m)
           | Some node \<Rightarrow> (Some node, m\<lparr>resolver := resolver_Put d (resolver m) k (name node)\<rparr>)))"

definition Route :: "'r deps \<Rightarrow> 'r Manager \<Rightarrow> 8 word list \<Rightarrow> string \<times> 'r Manager" where
  "Route d m key =
     (case Distribute d m key of
        (Some n, m') \<Rightarrow> (url n, m')
      | (None, m') \<Rightarrow> ('''', m'))"

section \<open>Notions the properties are stated with\<close>

text \<open>
  The block numbers a sub-filter asks for, as a set of integers. A node query has a
  range of this kind when both its bounds are there; the bounds are signed.
\<close>

definition dbRange :: "LogFilterV2 \<Rightarrow> int set" where
  "dbRange f = {uint (BlockFrom f) .. uint (BlockTo f)}"

definition fnRange :: "FilterQuery \<Rightarrow> int set" where
  "fnRange q =
     (case FromBlock q of
        None \<Rightarrow> {}
      | Some x \<Rightarrow> (case ToBlock q of None \<Rightarrow> {} | Some y \<Rightarrow> {sint x .. sint y}))"

text \<open>
  Every attempt starts with the one call of \<open>MaxEpoch\<close> that \<open>splitLogFilter\<close> makes,
  so the attempts of a run are counted by these calls in its trace.
\<close>

definition attempts :: "call list \<Rightarrow> nat" where
  "attempts t = length (filter (\<lambda>c. c = MaxEpochCall) t)"

text \<open>
  The state of the loop of \<open>GetLogs\<close>, that is \<open>lastReorgVersion\<close> and the trace, after
  \<open>k\<close> passes through its body that ended in a retry: the attempt succeeded, the version
  read after it differed from the recorded one, and the deadline had not passed.
\<close>

fun after_retries ::
  "'d env \<Rightarrow> uint32 \<Rightarrow> FilterQuery \<Rightarrow> nat \<Rightarrow> int \<Rightarrow> call list \<Rightarrow> (int \<times> call list) option" where
  "after_retries e networkId flt 0 lastReorgVersion t = Some (lastReorgVersion, t)"
| "after_retries e networkId flt (Suc k) lastReorgVersion t =
     (case getLogsReorgGuard e networkId flt t of
        (logs, hitStore, Some err, t1) \<Rightarrow> None
      | (logs, hitStore, None, t1) \<Rightarrow>
          (case GetReorgVersion e t1 of
             Inl err \<Rightarrow> None
           | Inr reorgVersion \<Rightarrow>
               if reorgVersion = lastReorgVersion then None
               else if Done e (t1 @ [GetReorgVersionCall]) then None
               else after_retries e networkId flt k reorgVersion
                      (t1 @ [GetReorgVersionCall, DoneCheck])))"

text \<open>A result that carries an error carries nothing else.\<close>

definition error_clean :: "result \<Rightarrow> bool" where
  "error_clean r =
     (case r of (logs, hitStore, err, t1) \<Rightarrow> err \<noteq> None \<longrightarrow> logs = [] \<and> \<not> hitStore)"

text \<open>The two collections of the manager hold the same names.\<close>

definition in_sync :: "'r Manager \<Rightarrow> bool" where
  "in_sync m = (dom (nodes m) = dom (hashRing m))"

section \<open>Concrete stores, nodes and managers\<close>

definition log_at :: "uint64 \<Rightarrow> Log" where
  "log_at n = \<lparr>LogAddress = 0, LogTopics = [], BlockNumber = n, LogIndex = 0\<rparr>"

text \<open>
  A store that holds the blocks up to 10 and whose version stays at 7, and a node that
  knows no block hash.
\<close>

definition steady_env :: "Log env" where
  "steady_env =
     \<lparr>GetReorgVersion = (\<lambda>t. Inr 7), MaxEpoch = (\<lambda>t. Inr (10, True)),
      GetLogsV2 = (\<lambda>t f. Inr [log_at 6, log_at 9]), BlockByHash = (\<lambda>t h. Inr None),
      Logs = (\<lambda>t q. Inr [log_at 12]), Done = (\<lambda>t. False), ToEthLog = (\<lambda>l. l)\<rparr>"

text \<open>The same with no data in the store, and a node that finds no logs.\<close>

definition empty_store_env :: "Log env" where
  "empty_store_env = steady_env\<lparr>MaxEpoch := (\<lambda>t. Inr (0, False)), Logs := (\<lambda>t q. Inr [])\<rparr>"

text \<open>A store whose version goes from 0 to 1 during the first attempt and stays there.\<close>

definition reorg_once_env :: "Log env" where
  "reorg_once_env =
     steady_env\<lparr>GetReorgVersion := (\<lambda>t. Inr (if attempts t = 0 then 0 else 1))\<rparr>"

text \<open>
  A store whose version changes during every attempt, with a deadline that has passed
  when the second attempt is over.
\<close>

definition reorg_storm_env :: "Log env" where
  "reorg_storm_env =
     steady_env\<lparr>GetReorgVersion := (\<lambda>t. Inr (int (attempts t))), Done := (\<lambda>t. 2 \<le> attempts t)\<rparr>"

text \<open>The steady store with a node that fails every log query.\<close>

definition node_down_env :: "Log env" where
  "node_down_env = steady_env\<lparr>Logs := (\<lambda>t q. Inl (errors_New ''node down''))\<rparr>"

definition range_5_20 :: FilterQuery where
  "range_5_20 =
     \<lparr>BlockHash = None, FromBlock = Some 5, ToBlock = Some 20, Addresses = [3], Topics = [[4]]\<rparr>"

definition hash_7 :: FilterQuery where
  "hash_7 = \<lparr>BlockHash = Some 7, FromBlock = None, ToBlock = None, Addresses = [], Topics = []\<rparr>"

text \<open>
  A resolver that is a table from hashes to names; urls that are their own names; a ring
  that gives every key to the member named b.
\<close>

definition table_deps :: "(uint64 \<rightharpoonup> string) deps" where
  "table_deps =
     \<lparr>Url2NodeName = (\<lambda>u. u), Sum64 = (\<lambda>key. word_of_nat (length key)),
      LocateKey = (\<lambda>r key. r ''b''),
      resolver_Get = (\<lambda>r k. case r k of None \<Rightarrow> ([], False) | Some nm \<Rightarrow> (nm, True)),
      resolver_Put = (\<lambda>r k nm. r(k \<mapsto> nm))\<rparr>"

text \<open>A manager of the nodes a and b in which the hash 0 is pinned to a.\<close>

definition pinned_manager :: "(uint64 \<rightharpoonup> string) Manager" where
  "pinned_manager =
     \<lparr>nodes = [''a'' \<mapsto> NewNode ''a'' ''a'', ''b'' \<mapsto> NewNode ''b'' ''b''],
      hashRing = [''a'' \<mapsto> NewNode ''a'' ''a'', ''b'' \<mapsto> NewNode ''b'' ''b''],
      resolver = [0 \<mapsto> ''a''], nodeName2Epochs = Map.empty, midEpoch = 0\<rparr>"

section \<open>Properties of the log query\<close>

subsection \<open>Signed and unsigned readings\<close>

lemma sint_nonneg_eq_uint:
  fixes w :: "64 word"
  assumes "0 \<le> sint w"
  shows "sint w = uint w"
proof -
  have "sint w < 2 ^ 63" using sint_lt [of w] by simp
  then have "take_bit 64 (sint w) = sint w"
    using assms by (intro take_bit_int_eq_self) auto
  then show ?thesis using uint_sint [of w] by simp
qed

lemma sint_succ_below:
  fixes m b :: "64 word"
  assumes "uint m < sint b"
  shows "sint (m + 1) = uint m + 1"
proof -
  have b: "sint b < 2 ^ 63" using sint_lt [of b] by simp
  have m: "0 \<le> uint m" by simp
  have u: "uint (m + 1) = uint m + 1"
    using assms b by (simp add: uint_word_ariths take_bit_int_eq_self)
  have "sint (m + 1) = signed_take_bit 63 (uint (m + 1))"
    by (simp add: sint_uint)
  also have "\<dots> = uint m + 1"
    unfolding u using assms b m by (intro signed_take_bit_int_eq_self) auto
  finally show ?thesis .
qed

subsection \<open>The straddling split\<close>

lemma straddle_split:
  assumes fb: "FromBlock flt = Some a" and tb: "ToBlock flt = Some b"
    and a0: "0 \<le> sint a" and b0: "0 \<le> sint b"
    and am: "uint a \<le> uint m" and mb: "uint m < uint b"
  shows "splitLogFilterByBlockRange nid flt m t =
           (Some (ParseEthLogFilterV2 a m flt nid),
            Some \<lparr>BlockHash = None, FromBlock = Some (m + 1), ToBlock = ToBlock flt,
                  Addresses = Addresses flt, Topics = Topics flt\<rparr>, None, t)"
proof -
  have 1: "\<not> m < a" using am by (simp add: word_less_def)
  have 2: "\<not> b \<le> m" using mb by (simp add: word_le_def)
  show ?thesis
    using a0 b0 1 2 by (simp add: splitLogFilterByBlockRange_def fb tb Let_def)
qed

text \<open>
  C1. For a range filter with concrete bounds \<open>A\<close> and \<open>B\<close>, neither negative, and a store
  that reports the boundary \<open>M\<close> with \<open>A \<le> M < B\<close>, \<open>splitLogFilter\<close> produces a DB
  sub-filter for the blocks \<open>A\<close> to \<open>M\<close> and a node sub-filter for the blocks \<open>M + 1\<close> to
  \<open>B\<close>: the two ranges are disjoint, the second starts right after the first ends, and
  together they are the blocks \<open>A\<close> to \<open>B\<close>.
\<close>

theorem splitLogFilter_straddle_ranges:
  assumes bh: "BlockHash flt = None"
    and fb: "FromBlock flt = Some a" and tb: "ToBlock flt = Some b"
    and a0: "0 \<le> sint a" and b0: "0 \<le> sint b"
    and me: "MaxEpoch e t = Inr (m, True)"
    and am: "sint a \<le> uint m" and mb: "uint m < sint b"
  shows "\<exists>dbf fnf. splitLogFilter e nid flt t = (Some dbf, Some fnf, None, t @ [MaxEpochCall])
           \<and> BlockFrom dbf = a \<and> BlockTo dbf = m
           \<and> FromBlock fnf = Some (m + 1) \<and> ToBlock fnf = Some b
           \<and> dbRange dbf = {sint a .. uint m}
           \<and> fnRange fnf = {uint m + 1 .. sint b}
           \<and> dbRange dbf \<inter> fnRange fnf = {}
           \<and> dbRange dbf \<union> fnRange fnf = {sint a .. sint b}"
proof -
  let ?dbf = "ParseEthLogFilterV2 a m flt nid"
  let ?fnf = "\<lparr>BlockHash = None, FromBlock = Some (m + 1), ToBlock = ToBlock flt,
                Addresses = Addresses flt, Topics = Topics flt\<rparr>"
  have ua: "uint a \<le> uint m" using am a0 by (simp add: sint_nonneg_eq_uint)
  have ub: "uint m < uint b" using mb b0 by (simp add: sint_nonneg_eq_uint)
  have s: "splitLogFilter e nid flt t = (Some ?dbf, Some ?fnf, None, t @ [MaxEpochCall])"
    by (simp add: splitLogFilter_def me bh straddle_split [OF fb tb a0 b0 ua ub])
  have p: "BlockFrom ?dbf = a \<and> BlockTo ?dbf = m \<and> FromBlock ?fnf = Some (m + 1)
             \<and> ToBlock ?fnf = Some b"
    by (simp add: ParseEthLogFilterV2_def tb)
  have d: "dbRange ?dbf = {sint a .. uint m}"
    using a0 by (simp add: dbRange_def ParseEthLogFilterV2_def sint_nonneg_eq_uint)
  have f: "fnRange ?fnf = {uint m + 1 .. sint b}"
    by (simp add: fnRange_def tb sint_succ_below [OF mb])
  have i: "{sint a .. uint m} \<inter> {uint m + 1 .. sint b} = {}" by auto
  have u: "{sint a .. uint m} \<union> {uint m + 1 .. sint b} = {sint a .. sint b}"
    using am mb by auto
  show ?thesis
    using s p d f i u by (intro exI [of _ ?dbf] exI [of _ ?fnf]) simp
qed

theorem splitLogFilter_straddle_ranges_witness:
  "\<exists>dbf fnf. splitLogFilter steady_env 1 range_5_20 [] = (Some dbf, Some fnf, None, [MaxEpochCall])
     \<and> BlockFrom dbf = 5 \<and> BlockTo dbf = 10
     \<and> FromBlock fnf = Some 11 \<and> ToBlock fnf = Some 20
     \<and> dbRange dbf = {5 .. 10} \<and> fnRange fnf = {11 .. 20}
     \<and> dbRange dbf \<inter> fnRange fnf = {} \<and> dbRange dbf \<union> fnRange fnf = {5 .. 20}"
  using splitLogFilter_straddle_ranges [of range_5_20 5 20 steady_env "[]" 10 1]
  by (simp add: steady_env_def range_5_20_def)

text \<open>
  C10. In the straddling split, the node sub-filter has the addresses, the topics and the
  upper bound of the filter it comes from, and the lower bound \<open>maxBlock + 1\<close>, which does
  not wrap around. A filter that reaches the range split has no block hash, and then the
  node sub-filter is the filter with nothing but its lower bound replaced.
\<close>

theorem straddle_node_filter_frame:
  assumes fb: "FromBlock flt = Some a" and tb: "ToBlock flt = Some b"
    and a0: "0 \<le> sint a" and b0: "0 \<le> sint b"
    and am: "uint a \<le> uint maxBlock" and mb: "uint maxBlock < uint b"
  shows "\<exists>dbf fnf. splitLogFilterByBlockRange nid flt maxBlock t = (Some dbf, Some fnf, None, t)
           \<and> Addresses fnf = Addresses flt \<and> Topics fnf = Topics flt
           \<and> ToBlock fnf = ToBlock flt
           \<and> FromBlock fnf = Some (maxBlock + 1) \<and> sint (maxBlock + 1) = uint maxBlock + 1
           \<and> (BlockHash flt = None \<longrightarrow> fnf = flt\<lparr>FromBlock := Some (maxBlock + 1)\<rparr>)"
proof -
  have "uint maxBlock < sint b" using mb b0 by (simp add: sint_nonneg_eq_uint)
  then have "sint (maxBlock + 1) = uint maxBlock + 1" by (rule sint_succ_below)
  then show ?thesis
    by (simp add: straddle_split [OF fb tb a0 b0 am mb])
qed

theorem straddle_node_filter_frame_witness:
  "\<exists>dbf fnf. splitLogFilterByBlockRange 1 range_5_20 10 [] = (Some dbf, Some fnf, None, [])
     \<and> Addresses fnf = [3] \<and> Topics fnf = [[4]] \<and> ToBlock fnf = Some 20
     \<and> FromBlock fnf = Some 11 \<and> fnf = range_5_20\<lparr>FromBlock := Some 11\<rparr>"
  using straddle_node_filter_frame [of range_5_20 5 20 10 1 "[]"]
  by (simp add: range_5_20_def)

subsection \<open>One pass through the loop\<close>

text \<open>The five ways through the body of the loop of \<open>GetLogs\<close>.\<close>

lemma loop_attempt_error:
  "getLogsReorgGuard e nid flt t = (logs, hit, Some err, t1) \<Longrightarrow>
   GetLogs_loop e nid flt lv t = Some ([], False, Some err, t1)"
  by (subst GetLogs_loop.simps) simp

lemma loop_version_error:
  "getLogsReorgGuard e nid flt t = (logs, hit, None, t1) \<Longrightarrow> GetReorgVersion e t1 = Inl err \<Longrightarrow>
   GetLogs_loop e nid flt lv t = Some ([], False, Some err, t1 @ [GetReorgVersionCall])"
  by (subst GetLogs_loop.simps) simp

lemma loop_stable:
  "getLogsReorgGuard e nid flt t = (logs, hit, None, t1) \<Longrightarrow> GetReorgVersion e t1 = Inr lv \<Longrightarrow>
   GetLogs_loop e nid flt lv t = Some (logs, hit, None, t1 @ [GetReorgVersionCall])"
  by (subst GetLogs_loop.simps) simp

lemma loop_timeout:
  "getLogsReorgGuard e nid flt t = (logs, hit, None, t1) \<Longrightarrow> GetReorgVersion e t1 = Inr v \<Longrightarrow>
   v \<noteq> lv \<Longrightarrow> Done e (t1 @ [GetReorgVersionCall]) \<Longrightarrow>
   GetLogs_loop e nid flt lv t =
     Some ([], False, Some ErrGetLogsTimeout, t1 @ [GetReorgVersionCall, DoneCheck])"
  by (subst GetLogs_loop.simps) simp

lemma loop_retry:
  "getLogsReorgGuard e nid flt t = (logs, hit, None, t1) \<Longrightarrow> GetReorgVersion e t1 = Inr v \<Longrightarrow>
   v \<noteq> lv \<Longrightarrow> \<not> Done e (t1 @ [GetReorgVersionCall]) \<Longrightarrow>
   GetLogs_loop e nid flt lv t =
     GetLogs_loop e nid flt v (t1 @ [GetReorgVersionCall, DoneCheck])"
  by (subst GetLogs_loop.simps) simp

text \<open>The loop goes on from the state it has after its retries.\<close>

lemma loop_after_retries:
  "after_retries e nid flt k lv t = Some (lv', t') \<Longrightarrow>
   GetLogs_loop e nid flt lv t = GetLogs_loop e nid flt lv' t'"
proof (induction k arbitrary: lv t)
  case 0
  then show ?case by simp
next
  case (Suc k)
  obtain logs hit err t1 where a: "getLogsReorgGuard e nid flt t = (logs, hit, err, t1)"
    by (metis prod_cases4)
  from Suc.prems a have en: "err = None"
    by (cases err) simp_all
  from Suc.prems a en obtain v where v: "GetReorgVersion e t1 = Inr v"
    by (cases "GetReorgVersion e t1") simp_all
  from Suc.prems a en v have ne: "v \<noteq> lv" and nd: "\<not> Done e (t1 @ [GetReorgVersionCall])"
    by (auto split: if_splits)
  from Suc.prems a en v ne nd
  have "after_retries e nid flt k v (t1 @ [GetReorgVersionCall, DoneCheck]) = Some (lv', t')"
    by simp
  then have "GetLogs_loop e nid flt v (t1 @ [GetReorgVersionCall, DoneCheck]) =
             GetLogs_loop e nid flt lv' t'"
    by (rule Suc.IH)
  then show ?case
    using loop_retry [OF a [unfolded en] v ne nd] by simp
qed

subsection \<open>The trace of an attempt\<close>

lemma split_trace:
  "splitLogFilter e nid flt t = (dbf, fnf, err, t1) \<Longrightarrow>
   \<exists>rest. t1 = t @ MaxEpochCall # rest \<and> MaxEpochCall \<notin> set rest"
  by (auto simp: splitLogFilter_def splitLogFilterByBlockHash_def splitLogFilterByBlockRange_def
      Let_def split: sum.splits option.splits if_splits prod.splits)

lemma attempt_trace:
  "getLogsReorgGuard e nid flt t = (logs, hit, err, t1) \<Longrightarrow>
   \<exists>rest. t1 = t @ MaxEpochCall # rest \<and> MaxEpochCall \<notin> set rest"
  unfolding getLogsReorgGuard_def
  by (auto split: sum.splits option.splits prod.splits dest!: split_trace)

lemma attempt_attempts:
  "getLogsReorgGuard e nid flt t = (logs, hit, err, t1) \<Longrightarrow> attempts t1 = attempts t + 1"
  by (drule attempt_trace) (auto simp: attempts_def filter_empty_conv)

lemma after_retries_attempts:
  "after_retries e nid flt k lv t = Some (lv', t') \<Longrightarrow> attempts t' = attempts t + k"
proof (induction k arbitrary: lv t)
  case 0
  then show ?case by simp
next
  case (Suc k)
  obtain logs hit err t1 where a: "getLogsReorgGuard e nid flt t = (logs, hit, err, t1)"
    by (metis prod_cases4)
  from Suc.prems a obtain v where
    r: "after_retries e nid flt k v (t1 @ [GetReorgVersionCall, DoneCheck]) = Some (lv', t')"
    by (auto split: option.splits sum.splits if_splits)
  have "attempts (t1 @ [GetReorgVersionCall, DoneCheck]) = attempts t + 1"
    using attempt_attempts [OF a] by (simp add: attempts_def)
  then show ?case using Suc.IH [OF r] by simp
qed

subsection \<open>Errors carry no data\<close>

lemma attempt_error_clean: "error_clean (getLogsReorgGuard e nid flt t)"
  unfolding getLogsReorgGuard_def error_clean_def
  by (auto split: sum.splits option.splits prod.splits)

lemma loop_error_clean:
  assumes "GetLogs_loop e nid flt lv t = Some r"
  shows "error_clean r"
proof (rule GetLogs_loop.raw_induct [where P = "\<lambda>e nid flt lv t r. error_clean r", OF _ assms])
  fix loop :: "'a env \<Rightarrow> uint32 \<Rightarrow> FilterQuery \<Rightarrow> int \<Rightarrow> call list \<Rightarrow> result option"
  fix e nid flt lv t r
  assume IH: "\<And>e nid flt lv t y. loop e nid flt lv t = Some y \<Longrightarrow> error_clean y"
  assume body: "(case getLogsReorgGuard e nid flt t of
        (logs, hitStore, None, t1) \<Rightarrow>
          (case GetReorgVersion e t1 of
             Inl err \<Rightarrow> Some ([], False, Some err, t1 @ [GetReorgVersionCall])
           | Inr reorgVersion \<Rightarrow>
               if reorgVersion = lv
               then Some (logs, hitStore, None, t1 @ [GetReorgVersionCall])
               else if Done e (t1 @ [GetReorgVersionCall])
               then Some ([], False, Some ErrGetLogsTimeout, t1 @ [GetReorgVersionCall, DoneCheck])
               else loop e nid flt reorgVersion (t1 @ [GetReorgVersionCall, DoneCheck]))
      | (logs, hitStore, Some err, t1) \<Rightarrow> Some ([], False, Some err, t1)) = Some r"
  show "error_clean r"
    using body
    by (auto split: sum.splits option.splits prod.splits if_splits intro: IH)
      (simp_all add: error_clean_def)
qed

text \<open>
  C9. Whenever \<open>GetLogs\<close> returns an error that is not nil, whichever step it comes from,
  the log slice it returns is nil and the hit-store flag is false.
\<close>

theorem GetLogs_error_no_data:
  assumes "GetLogs e nid flt t = Some (logs, hitStore, Some err, t')"
  shows "logs = [] \<and> \<not> hitStore"
proof (cases "GetReorgVersion e t")
  case (Inl err0)
  with assms show ?thesis by (simp add: GetLogs_def)
next
  case (Inr lv)
  with assms have "GetLogs_loop e nid flt lv (t @ [GetReorgVersionCall]) =
      Some (logs, hitStore, Some err, t')"
    by (simp add: GetLogs_def)
  then have "error_clean (logs, hitStore, Some err, t')" by (rule loop_error_clean)
  then show ?thesis by (simp add: error_clean_def)
qed

theorem GetLogs_error_no_data_witness:
  "GetLogs node_down_env 1 range_5_20 [] =
     Some ([], False, Some (errors_New ''node down''),
           [GetReorgVersionCall, MaxEpochCall,
            GetLogsV2Call (ParseEthLogFilterV2 5 10 range_5_20 1),
            LogsCall (range_5_20\<lparr>FromBlock := Some 11\<rparr>)])
   \<and> ([] :: Log list) = [] \<and> \<not> False"
proof -
  have a: "getLogsReorgGuard node_down_env 1 range_5_20 [GetReorgVersionCall] =
      ([], False, Some (errors_New ''node down''),
       [GetReorgVersionCall, MaxEpochCall,
        GetLogsV2Call (ParseEthLogFilterV2 5 10 range_5_20 1),
        LogsCall (range_5_20\<lparr>FromBlock := Some 11\<rparr>)])"
    by (simp add: getLogsReorgGuard_def splitLogFilter_def splitLogFilterByBlockRange_def
        node_down_env_def steady_env_def range_5_20_def Let_def)
  have v: "GetReorgVersion node_down_env [] = Inr 7"
    by (simp add: node_down_env_def steady_env_def)
  have run: "GetLogs node_down_env 1 range_5_20 [] =
      Some ([], False, Some (errors_New ''node down''),
            [GetReorgVersionCall, MaxEpochCall,
             GetLogsV2Call (ParseEthLogFilterV2 5 10 range_5_20 1),
             LogsCall (range_5_20\<lparr>FromBlock := Some 11\<rparr>)])"
    by (simp add: GetLogs_def v loop_attempt_error [OF a])
  from GetLogs_error_no_data [OF run] run show ?thesis by simp
qed

subsection \<open>Retry, timeout and the unknown block\<close>

text \<open>What an attempt on the concrete stores gives, from any trace.\<close>

lemma steady_attempt:
  assumes "MaxEpoch e = (\<lambda>t. Inr (10, True))"
    and "GetLogsV2 e = (\<lambda>t f. Inr [log_at 6, log_at 9])"
    and "Logs e = (\<lambda>t q. Inr [log_at 12])" and "ToEthLog e = (\<lambda>l. l)"
  shows "getLogsReorgGuard e 1 range_5_20 t =
     ([log_at 6, log_at 9, log_at 12], True, None,
      t @ [MaxEpochCall, GetLogsV2Call (ParseEthLogFilterV2 5 10 range_5_20 1),
           LogsCall (range_5_20\<lparr>FromBlock := Some 11\<rparr>)])"
  by (simp add: getLogsReorgGuard_def splitLogFilter_def splitLogFilterByBlockRange_def
      assms range_5_20_def Let_def)

text \<open>
  C2. When the version read before the first attempt is \<open>v0\<close>, the one read after it is
  \<open>v1\<close>, different from \<open>v0\<close>, with the deadline not passed, and the one read after the
  second attempt is \<open>v1\<close> again, \<open>GetLogs\<close> makes two attempts, no more and no less, and
  returns what the second one gave. And whenever the version read after an attempt is the
  one recorded before it, \<open>GetLogs\<close> returns what that attempt gave with no attempt after
  it: after \<open>k\<close> retries the run has made \<open>k + 1\<close> attempts.
\<close>

theorem GetLogs_reorg_retry:
  "(GetReorgVersion e t0 = Inr v0
      \<and> getLogsReorgGuard e nid flt (t0 @ [GetReorgVersionCall]) = (logs1, hit1, None, t1)
      \<and> GetReorgVersion e t1 = Inr v1 \<and> v1 \<noteq> v0
      \<and> \<not> Done e (t1 @ [GetReorgVersionCall])
      \<and> getLogsReorgGuard e nid flt (t1 @ [GetReorgVersionCall, DoneCheck]) = (logs2, hit2, None, t2)
      \<and> GetReorgVersion e t2 = Inr v1
    \<longrightarrow> GetLogs e nid flt t0 = Some (logs2, hit2, None, t2 @ [GetReorgVersionCall])
        \<and> attempts (t2 @ [GetReorgVersionCall]) = attempts t0 + 2)
   \<and> (GetReorgVersion e t0 = Inr v0
      \<and> after_retries e nid flt k v0 (t0 @ [GetReorgVersionCall]) = Some (lv, t)
      \<and> getLogsReorgGuard e nid flt t = (logs, hit, None, t')
      \<and> GetReorgVersion e t' = Inr lv
    \<longrightarrow> GetLogs e nid flt t0 = Some (logs, hit, None, t' @ [GetReorgVersionCall])
        \<and> attempts (t' @ [GetReorgVersionCall]) = attempts t0 + k + 1)"
proof (intro conjI impI)
  assume h: "GetReorgVersion e t0 = Inr v0
      \<and> getLogsReorgGuard e nid flt (t0 @ [GetReorgVersionCall]) = (logs1, hit1, None, t1)
      \<and> GetReorgVersion e t1 = Inr v1 \<and> v1 \<noteq> v0
      \<and> \<not> Done e (t1 @ [GetReorgVersionCall])
      \<and> getLogsReorgGuard e nid flt (t1 @ [GetReorgVersionCall, DoneCheck]) = (logs2, hit2, None, t2)
      \<and> GetReorgVersion e t2 = Inr v1"
  then have a1: "getLogsReorgGuard e nid flt (t0 @ [GetReorgVersionCall]) = (logs1, hit1, None, t1)"
    and r1: "GetReorgVersion e t1 = Inr v1" and ne: "v1 \<noteq> v0"
    and nd: "\<not> Done e (t1 @ [GetReorgVersionCall])"
    and a2: "getLogsReorgGuard e nid flt (t1 @ [GetReorgVersionCall, DoneCheck]) = (logs2, hit2, None, t2)"
    and r2: "GetReorgVersion e t2 = Inr v1"
    by simp_all
  have "GetLogs_loop e nid flt v0 (t0 @ [GetReorgVersionCall]) =
        GetLogs_loop e nid flt v1 (t1 @ [GetReorgVersionCall, DoneCheck])"
    by (rule loop_retry [OF a1 r1 ne nd])
  also have "\<dots> = Some (logs2, hit2, None, t2 @ [GetReorgVersionCall])"
    by (rule loop_stable [OF a2 r2])
  finally show "GetLogs e nid flt t0 = Some (logs2, hit2, None, t2 @ [GetReorgVersionCall])"
    using h by (simp add: GetLogs_def)
  have "attempts t1 = attempts (t0 @ [GetReorgVersionCall]) + 1"
    by (rule attempt_attempts [OF a1])
  moreover have "attempts t2 = attempts (t1 @ [GetReorgVersionCall, DoneCheck]) + 1"
    by (rule attempt_attempts [OF a2])
  ultimately show "attempts (t2 @ [GetReorgVersionCall]) = attempts t0 + 2"
    by (simp add: attempts_def)
next
  assume h: "GetReorgVersion e t0 = Inr v0
      \<and> after_retries e nid flt k v0 (t0 @ [GetReorgVersionCall]) = Some (lv, t)
      \<and> getLogsReorgGuard e nid flt t = (logs, hit, None, t')
      \<and> GetReorgVersion e t' = Inr lv"
  then have ar: "after_retries e nid flt k v0 (t0 @ [GetReorgVersionCall]) = Some (lv, t)"
    and a: "getLogsReorgGuard e nid flt t = (logs, hit, None, t')"
    and r: "GetReorgVersion e t' = Inr lv"
    by simp_all
  have "GetLogs_loop e nid flt v0 (t0 @ [GetReorgVersionCall]) = GetLogs_loop e nid flt lv t"
    by (rule loop_after_retries [OF ar])
  also have "\<dots> = Some (logs, hit, None, t' @ [GetReorgVersionCall])"
    by (rule loop_stable [OF a r])
  finally show "GetLogs e nid flt t0 = Some (logs, hit, None, t' @ [GetReorgVersionCall])"
    using h by (simp add: GetLogs_def)
  have "attempts t = attempts (t0 @ [GetReorgVersionCall]) + k"
    by (rule after_retries_attempts [OF ar])
  moreover have "attempts t' = attempts t + 1"
    by (rule attempt_attempts [OF a])
  ultimately show "attempts (t' @ [GetReorgVersionCall]) = attempts t0 + k + 1"
    by (simp add: attempts_def)
qed

theorem GetLogs_reorg_retry_witness:
  "GetLogs reorg_once_env 1 range_5_20 [] =
     Some ([log_at 6, log_at 9, log_at 12], True, None,
           [GetReorgVersionCall,
            MaxEpochCall, GetLogsV2Call (ParseEthLogFilterV2 5 10 range_5_20 1),
            LogsCall (range_5_20\<lparr>FromBlock := Some 11\<rparr>),
            GetReorgVersionCall, DoneCheck,
            MaxEpochCall, GetLogsV2Call (ParseEthLogFilterV2 5 10 range_5_20 1),
            LogsCall (range_5_20\<lparr>FromBlock := Some 11\<rparr>),
            GetReorgVersionCall])
   \<and> GetLogs steady_env 1 range_5_20 [] =
     Some ([log_at 6, log_at 9, log_at 12], True, None,
           [GetReorgVersionCall,
            MaxEpochCall, GetLogsV2Call (ParseEthLogFilterV2 5 10 range_5_20 1),
            LogsCall (range_5_20\<lparr>FromBlock := Some 11\<rparr>),
            GetReorgVersionCall])"
proof -
  let ?att = "[MaxEpochCall, GetLogsV2Call (ParseEthLogFilterV2 5 10 range_5_20 1),
               LogsCall (range_5_20\<lparr>FromBlock := Some 11\<rparr>)]"
  have once: "getLogsReorgGuard reorg_once_env 1 range_5_20 t =
      ([log_at 6, log_at 9, log_at 12], True, None, t @ ?att)" for t
    by (rule steady_attempt) (simp_all add: reorg_once_env_def steady_env_def)
  have steady: "getLogsReorgGuard steady_env 1 range_5_20 t =
      ([log_at 6, log_at 9, log_at 12], True, None, t @ ?att)" for t
    by (rule steady_attempt) (simp_all add: steady_env_def)
  have v: "GetReorgVersion reorg_once_env t = Inr (if attempts t = 0 then 0 else 1)" for t
    by (simp add: reorg_once_env_def steady_env_def)
  have d: "Done reorg_once_env t = False" for t
    by (simp add: reorg_once_env_def steady_env_def)
  have sv: "GetReorgVersion steady_env t = Inr 7" for t
    by (simp add: steady_env_def)
  have 1: "GetLogs reorg_once_env 1 range_5_20 [] =
      Some ([log_at 6, log_at 9, log_at 12], True, None,
            (([GetReorgVersionCall] @ ?att) @ [GetReorgVersionCall, DoneCheck]) @ ?att
              @ [GetReorgVersionCall])"
    using GetLogs_reorg_retry [of reorg_once_env "[]" 0 1 range_5_20
        "[log_at 6, log_at 9, log_at 12]" True "[GetReorgVersionCall] @ ?att" 1
        "[log_at 6, log_at 9, log_at 12]" True
        "(([GetReorgVersionCall] @ ?att) @ [GetReorgVersionCall, DoneCheck]) @ ?att"]
    by (simp add: once v d attempts_def)
  have 2: "GetLogs steady_env 1 range_5_20 [] =
      Some ([log_at 6, log_at 9, log_at 12], True, None,
            ([GetReorgVersionCall] @ ?att) @ [GetReorgVersionCall])"
    using GetLogs_reorg_retry [of steady_env "[]" 7 1 range_5_20 _ _ _ _ _ _ _ 0 7
        "[GetReorgVersionCall]" "[log_at 6, log_at 9, log_at 12]" True
        "[GetReorgVersionCall] @ ?att"]
    by (simp add: steady sv)
  from 1 2 show ?thesis by simp
qed

text \<open>
  C3. When, after an attempt of \<open>GetLogs\<close>, whichever it is, the version differs from
  the one recorded before and the deadline has passed, \<open>GetLogs\<close> returns the error
  \<open>ErrGetLogsTimeout\<close> with a nil log slice and a false flag, not what the attempt gave.
\<close>

theorem GetLogs_reorg_timeout:
  assumes v0: "GetReorgVersion e t0 = Inr v0"
    and ar: "after_retries e nid flt k v0 (t0 @ [GetReorgVersionCall]) = Some (lv, t)"
    and a: "getLogsReorgGuard e nid flt t = (logs, hit, None, t1)"
    and r: "GetReorgVersion e t1 = Inr v" and ne: "v \<noteq> lv"
    and dl: "Done e (t1 @ [GetReorgVersionCall])"
  shows "GetLogs e nid flt t0 =
           Some ([], False, Some ErrGetLogsTimeout, t1 @ [GetReorgVersionCall, DoneCheck])"
proof -
  have "GetLogs_loop e nid flt v0 (t0 @ [GetReorgVersionCall]) = GetLogs_loop e nid flt lv t"
    by (rule loop_after_retries [OF ar])
  also have "\<dots> = Some ([], False, Some ErrGetLogsTimeout, t1 @ [GetReorgVersionCall, DoneCheck])"
    by (rule loop_timeout [OF a r ne dl])
  finally show ?thesis using v0 by (simp add: GetLogs_def)
qed

theorem GetLogs_reorg_timeout_witness:
  "GetLogs reorg_storm_env 1 range_5_20 [] =
     Some ([], False, Some ErrGetLogsTimeout,
           [GetReorgVersionCall,
            MaxEpochCall, GetLogsV2Call (ParseEthLogFilterV2 5 10 range_5_20 1),
            LogsCall (range_5_20\<lparr>FromBlock := Some 11\<rparr>),
            GetReorgVersionCall, DoneCheck,
            MaxEpochCall, GetLogsV2Call (ParseEthLogFilterV2 5 10 range_5_20 1),
            LogsCall (range_5_20\<lparr>FromBlock := Some 11\<rparr>),
            GetReorgVersionCall, DoneCheck])"
proof -
  let ?att = "[MaxEpochCall, GetLogsV2Call (ParseEthLogFilterV2 5 10 range_5_20 1),
               LogsCall (range_5_20\<lparr>FromBlock := Some 11\<rparr>)]"
  have storm: "getLogsReorgGuard reorg_storm_env 1 range_5_20 t =
      ([log_at 6, log_at 9, log_at 12], True, None, t @ ?att)" for t
    by (rule steady_attempt) (simp_all add: reorg_storm_env_def steady_env_def)
  have v: "GetReorgVersion reorg_storm_env t = Inr (int (attempts t))" for t
    by (simp add: reorg_storm_env_def steady_env_def)
  have d: "Done reorg_storm_env t = (2 \<le> attempts t)" for t
    by (simp add: reorg_storm_env_def steady_env_def)
  have ar: "after_retries reorg_storm_env 1 range_5_20 (Suc 0) 0 ([] @ [GetReorgVersionCall]) =
      Some (1, ([GetReorgVersionCall] @ ?att) @ [GetReorgVersionCall, DoneCheck])"
    by (simp add: storm v d attempts_def)
  show ?thesis
    using GetLogs_reorg_timeout [of reorg_storm_env "[]" 0 1 range_5_20 "Suc 0" 1
        "([GetReorgVersionCall] @ ?att) @ [GetReorgVersionCall, DoneCheck]"
        "[log_at 6, log_at 9, log_at 12]" True
        "(([GetReorgVersionCall] @ ?att) @ [GetReorgVersionCall, DoneCheck]) @ ?att" 2, OF _ ar]
    by (simp add: storm v d attempts_def)
qed

text \<open>
  C7, as the code has it. When the store holds data, that is \<open>MaxEpoch\<close> answers with
  \<open>ok\<close> true and no error, and the node answers \<open>BlockByHash\<close> for the hash of a
  block-hash filter with a nil block and no error, the attempt ends there: \<open>GetLogs\<close>
  returns the error "unknown block", with no query to the DB or for the node's logs in
  that attempt and no attempt after it.
\<close>

theorem unknown_block_fails:
  assumes v0: "GetReorgVersion e t0 = Inr v0"
    and ar: "after_retries e nid flt k v0 (t0 @ [GetReorgVersionCall]) = Some (lv, t)"
    and me: "MaxEpoch e t = Inr (maxBlock, True)"
    and bh: "BlockHash flt = Some h"
    and blk: "BlockByHash e (t @ [MaxEpochCall]) h = Inr None"
  shows "GetLogs e nid flt t0 =
           Some ([], False, Some (errors_New ''unknown block''),
                 t @ [MaxEpochCall, BlockByHashCall h])"
proof -
  have a: "getLogsReorgGuard e nid flt t =
      ([], False, Some (errors_New ''unknown block''), t @ [MaxEpochCall, BlockByHashCall h])"
    by (simp add: getLogsReorgGuard_def splitLogFilter_def splitLogFilterByBlockHash_def me bh blk)
  have "GetLogs_loop e nid flt v0 (t0 @ [GetReorgVersionCall]) = GetLogs_loop e nid flt lv t"
    by (rule loop_after_retries [OF ar])
  also have "\<dots> = Some ([], False, Some (errors_New ''unknown block''),
      t @ [MaxEpochCall, BlockByHashCall h])"
    by (rule loop_attempt_error [OF a])
  finally show ?thesis using v0 by (simp add: GetLogs_def)
qed

theorem unknown_block_fails_witness:
  "GetLogs steady_env 1 hash_7 [] =
     Some ([], False, Some (errors_New ''unknown block''),
           [GetReorgVersionCall, MaxEpochCall, BlockByHashCall 7])"
  using unknown_block_fails [of steady_env "[]" 7 1 hash_7 0 7 "[GetReorgVersionCall]" 10 7]
  by (simp add: steady_env_def hash_7_def)

text \<open>
  C7 as it is stated fails on a store that holds no data: the node knows no block of the
  hash 7, and the query for that hash returns without an error.
\<close>

theorem unknown_block_empty_store_counterexample:
  "BlockHash hash_7 = Some 7
   \<and> BlockByHash empty_store_env [GetReorgVersionCall, MaxEpochCall] 7 = Inr None
   \<and> GetLogs empty_store_env 1 hash_7 [] =
       Some ([], False, None,
             [GetReorgVersionCall, MaxEpochCall, LogsCall hash_7, GetReorgVersionCall])"
proof -
  have a: "getLogsReorgGuard empty_store_env 1 hash_7 [GetReorgVersionCall] =
      ([], False, None, [GetReorgVersionCall, MaxEpochCall, LogsCall hash_7])"
    by (simp add: getLogsReorgGuard_def splitLogFilter_def empty_store_env_def steady_env_def)
  have v: "GetReorgVersion empty_store_env t = Inr 7" for t
    by (simp add: empty_store_env_def steady_env_def)
  have "GetLogs empty_store_env 1 hash_7 [] =
      Some ([], False, None,
            [GetReorgVersionCall, MaxEpochCall, LogsCall hash_7] @ [GetReorgVersionCall])"
    by (simp add: GetLogs_def v loop_stable [OF a v])
  then show ?thesis
    by (simp add: hash_7_def empty_store_env_def steady_env_def)
qed

subsection \<open>The order of a merged result\<close>

text \<open>Two sub-filters come out of the straddling branch of the range split only.\<close>

lemma split_both:
  assumes "splitLogFilter e nid flt t = (Some dbf, Some fnf, err, t1)"
  shows "\<exists>a b m. 0 \<le> sint a \<and> 0 \<le> sint b \<and> uint a \<le> uint m \<and> uint m < uint b
           \<and> BlockFrom dbf = a \<and> BlockTo dbf = m
           \<and> FromBlock fnf = Some (m + 1) \<and> ToBlock fnf = Some b"
  using assms
  by (auto simp: splitLogFilter_def splitLogFilterByBlockHash_def splitLogFilterByBlockRange_def
      ParseEthLogFilterV2_def Let_def word_le_def word_less_def not_less not_le
      split: sum.splits option.splits if_splits prod.splits)

lemma split_both_ranges:
  assumes "splitLogFilter e nid flt t = (Some dbf, Some fnf, err, t1)"
  shows "\<exists>lo m hi. dbRange dbf = {lo .. m} \<and> fnRange fnf = {m + 1 .. hi}"
proof -
  from split_both [OF assms] obtain a b m where
    b0: "0 \<le> sint b" and mb: "uint m < uint b"
    and d: "BlockFrom dbf = a" "BlockTo dbf = m"
    and f: "FromBlock fnf = Some (m + 1)" "ToBlock fnf = Some b"
    by blast
  have "uint m < sint b" using mb b0 by (simp add: sint_nonneg_eq_uint)
  then have "sint (m + 1) = uint m + 1" by (rule sint_succ_below)
  then have "dbRange dbf = {uint a .. uint m} \<and> fnRange fnf = {uint m + 1 .. sint b}"
    by (simp add: dbRange_def fnRange_def d f)
  then show ?thesis by blast
qed

text \<open>
  C4. In a successful attempt in which the split gives a DB sub-filter and a node
  sub-filter, the merged result is the DB's logs, converted, followed by the node's logs.
  Every block of the DB sub-filter's range is below every block of the node sub-filter's
  range; so when each side answers with logs of the range it was asked for, in ascending
  order of block, the merged result is in ascending order of block.
\<close>

theorem merged_logs_ascending:
  assumes sp: "splitLogFilter e nid flt t = (Some dbf, Some fnf, None, t1)"
    and db: "GetLogsV2 e t1 dbf = Inr dbLogs"
    and fn: "Logs e (t1 @ [GetLogsV2Call dbf]) fnf = Inr fnLogs"
  shows "getLogsReorgGuard e nid flt t =
           (map (ToEthLog e) dbLogs @ fnLogs, True, None, t1 @ [GetLogsV2Call dbf, LogsCall fnf])
         \<and> (\<forall>x \<in> dbRange dbf. \<forall>y \<in> fnRange fnf. x < y)
         \<and> ((\<forall>l \<in> set dbLogs. uint (BlockNumber (ToEthLog e l)) \<in> dbRange dbf)
              \<and> (\<forall>l \<in> set fnLogs. uint (BlockNumber l) \<in> fnRange fnf)
              \<and> sorted (map BlockNumber (map (ToEthLog e) dbLogs))
              \<and> sorted (map BlockNumber fnLogs)
            \<longrightarrow> sorted (map BlockNumber (map (ToEthLog e) dbLogs @ fnLogs)))"
proof (intro conjI impI)
  show "getLogsReorgGuard e nid flt t =
      (map (ToEthLog e) dbLogs @ fnLogs, True, None, t1 @ [GetLogsV2Call dbf, LogsCall fnf])"
    by (simp add: getLogsReorgGuard_def sp db fn)
  from split_both_ranges [OF sp] obtain lo m hi where
    rg: "dbRange dbf = {lo .. m}" "fnRange fnf = {m + 1 .. hi}"
    by blast
  show below: "\<forall>x \<in> dbRange dbf. \<forall>y \<in> fnRange fnf. x < y"
    by (auto simp: rg)
  assume h: "(\<forall>l \<in> set dbLogs. uint (BlockNumber (ToEthLog e l)) \<in> dbRange dbf)
      \<and> (\<forall>l \<in> set fnLogs. uint (BlockNumber l) \<in> fnRange fnf)
      \<and> sorted (map BlockNumber (map (ToEthLog e) dbLogs))
      \<and> sorted (map BlockNumber fnLogs)"
  have "BlockNumber (ToEthLog e x) \<le> BlockNumber y"
    if "x \<in> set dbLogs" and "y \<in> set fnLogs" for x y
  proof -
    have "uint (BlockNumber (ToEthLog e x)) < uint (BlockNumber y)"
      using h that below by blast
    then show ?thesis by (simp add: word_le_def)
  qed
  then show "sorted (map BlockNumber (map (ToEthLog e) dbLogs @ fnLogs))"
    using h by (auto simp: sorted_append)
qed

theorem merged_logs_ascending_witness:
  "getLogsReorgGuard steady_env 1 range_5_20 [] =
     ([log_at 6, log_at 9, log_at 12], True, None,
      [MaxEpochCall, GetLogsV2Call (ParseEthLogFilterV2 5 10 range_5_20 1),
       LogsCall (range_5_20\<lparr>FromBlock := Some 11\<rparr>)])
   \<and> uint (BlockNumber (log_at 6)) \<in> {5 .. 10} \<and> uint (BlockNumber (log_at 9)) \<in> {5 .. 10}
   \<and> uint (BlockNumber (log_at 12)) \<in> {11 .. 20}
   \<and> sorted (map BlockNumber [log_at 6, log_at 9]) \<and> sorted (map BlockNumber [log_at 12])
   \<and> sorted (map BlockNumber [log_at 6, log_at 9, log_at 12])"
proof -
  let ?dbf = "ParseEthLogFilterV2 5 10 range_5_20 1"
  let ?fnf = "range_5_20\<lparr>FromBlock := Some 11\<rparr>"
  have sp: "splitLogFilter steady_env 1 range_5_20 [] = (Some ?dbf, Some ?fnf, None, [MaxEpochCall])"
    by (simp add: splitLogFilter_def splitLogFilterByBlockRange_def steady_env_def
        range_5_20_def Let_def)
  have db: "GetLogsV2 steady_env [MaxEpochCall] ?dbf = Inr [log_at 6, log_at 9]"
    by (simp add: steady_env_def)
  have fn: "Logs steady_env ([MaxEpochCall] @ [GetLogsV2Call ?dbf]) ?fnf = Inr [log_at 12]"
    by (simp add: steady_env_def)
  have dr: "dbRange ?dbf = {5 .. 10}"
    by (simp add: dbRange_def ParseEthLogFilterV2_def)
  have fr: "fnRange ?fnf = {11 .. 20}"
    by (simp add: fnRange_def range_5_20_def)
  have cv: "ToEthLog steady_env = (\<lambda>l. l)"
    by (simp add: steady_env_def)
  show ?thesis
    using merged_logs_ascending [OF sp db fn]
    by (simp add: dr fr cv log_at_def)
qed

section \<open>Properties of the cluster manager\<close>

subsection \<open>Node map and ring\<close>

lemma name_NewNode: "name (NewNode n u) = n"
  by (simp add: NewNode_def)

lemma dom_fold_members:
  "dom (fold (\<lambda>member r. r(name member \<mapsto> member)) members r0) = dom r0 \<union> name ` set members"
  by (induction members arbitrary: r0) auto

lemma dom_consistent_New: "dom (consistent_New members) = name ` set members"
  by (simp add: consistent_New_def dom_fold_members)

lemma dom_consistent_Add: "dom (consistent_Add r member) = insert (name member) (dom r)"
  by (auto simp: consistent_Add_def)

lemma dom_consistent_Remove: "dom (consistent_Remove r n) = dom r - {n}"
  by (auto simp: consistent_Remove_def)

lemma NewManager_loop_names:
  "NewManager_loop d urls ns members = (ns', members') \<Longrightarrow> dom ns = name ` set members \<Longrightarrow>
   dom ns' = name ` set members'"
proof (induction urls arbitrary: ns members)
  case Nil
  then show ?case by simp
next
  case (Cons u urls)
  show ?case
  proof (cases "ns (Url2NodeName d u) = None")
    case True
    let ?node = "NewNode (Url2NodeName d u) u"
    from Cons.prems(1) True have
      "NewManager_loop d urls (ns(Url2NodeName d u \<mapsto> ?node)) (members @ [?node]) = (ns', members')"
      by (simp add: Let_def)
    moreover have "dom (ns(Url2NodeName d u \<mapsto> ?node)) = name ` set (members @ [?node])"
      using Cons.prems(2) by (simp add: name_NewNode)
    ultimately show ?thesis by (rule Cons.IH)
  next
    case False
    with Cons.prems(1) have "NewManager_loop d urls ns members = (ns', members')"
      by (simp add: Let_def)
    then show ?thesis using Cons.prems(2) by (rule Cons.IH)
  qed
qed

text \<open>
  C6. The names of the node map are the names of the ring's members, and the other way
  round: it is so in the manager that \<open>NewManagerWithRepartition\<close> builds, and \<open>Add\<close>
  and \<open>Remove\<close>, each one step on both collections, keep it so.
\<close>

theorem manager_in_sync:
  "in_sync (NewManagerWithRepartition d urls res)
   \<and> (in_sync m \<longrightarrow> in_sync (Add d m u))
   \<and> (in_sync m \<longrightarrow> in_sync (Remove d m u))"
proof (intro conjI impI)
  obtain ns members where l: "NewManager_loop d urls Map.empty [] = (ns, members)"
    by (cases "NewManager_loop d urls Map.empty []")
  then have "dom ns = name ` set members"
    by (rule NewManager_loop_names) simp
  then show "in_sync (NewManagerWithRepartition d urls res)"
    by (simp add: in_sync_def NewManagerWithRepartition_def l dom_consistent_New)
next
  assume "in_sync m"
  then show "in_sync (Add d m u)"
    by (simp add: in_sync_def Add_def Let_def dom_consistent_Add name_NewNode)
next
  assume "in_sync m"
  then show "in_sync (Remove d m u)"
    by (auto simp: in_sync_def Remove_def Let_def dom_consistent_Remove split: option.splits)
qed

theorem manager_in_sync_witness:
  "in_sync (NewManagerWithRepartition table_deps [''a'', ''b'', ''a''] Map.empty)
   \<and> in_sync pinned_manager
   \<and> in_sync (Add table_deps pinned_manager ''c'')
   \<and> in_sync (Remove table_deps pinned_manager ''a'')"
proof -
  have "in_sync pinned_manager"
    by (simp add: in_sync_def pinned_manager_def)
  then show ?thesis
    using manager_in_sync [of table_deps "[''a'', ''b'', ''a'']" Map.empty pinned_manager "''c''"]
      manager_in_sync [of table_deps "[]" Map.empty pinned_manager "''a''"]
    by simp
qed

subsection \<open>The pinned key\<close>

text \<open>
  C5. When the resolver holds a name for the hash of a key, \<open>Distribute\<close> returns what
  the node map has under that name and leaves the manager as it is. The ring is not
  asked: whatever its members are and whatever \<open>LocateKey\<close> would answer, the result is
  the same. When the node of that name has been removed, the result is nil.
\<close>

theorem Distribute_cached:
  assumes "resolver_Get d (resolver m) (Sum64 d key) = (nm, True)"
  shows "Distribute d m key = (nodes m nm, m)
         \<and> fst (Distribute (d\<lparr>LocateKey := locate\<rparr>) (m\<lparr>hashRing := r\<rparr>) key) = nodes m nm
         \<and> (Url2NodeName d u = nm \<longrightarrow> fst (Distribute d (Remove d m u) key) = None)"
  using assms
  by (auto simp: Distribute_def Remove_def Let_def split: option.splits)

theorem Distribute_cached_witness:
  "Distribute table_deps pinned_manager [] = (Some (NewNode ''a'' ''a''), pinned_manager)
   \<and> LocateKey table_deps (hashRing pinned_manager) [] = Some (NewNode ''b'' ''b'')
   \<and> fst (Distribute table_deps (Remove table_deps pinned_manager ''a'') []) = None"
proof -
  have g: "resolver_Get table_deps (resolver pinned_manager) (Sum64 table_deps []) = (''a'', True)"
    by (simp add: table_deps_def pinned_manager_def)
  have n: "nodes pinned_manager ''a'' = Some (NewNode ''a'' ''a'')"
    by (simp add: pinned_manager_def)
  have l: "LocateKey table_deps (hashRing pinned_manager) [] = Some (NewNode ''b'' ''b'')"
    by (simp add: table_deps_def pinned_manager_def)
  have u: "Url2NodeName table_deps ''a'' = ''a''"
    by (simp add: table_deps_def)
  show ?thesis
    using Distribute_cached [OF g, of "LocateKey table_deps" "hashRing pinned_manager" "''a''"] n l u
    by simp
qed

subsection \<open>Adding and removing\<close>

text \<open>
  C8, as the code has it. For a url whose name is not in the node map, \<open>Add\<close> followed
  by \<open>Remove\<close> of that url gives back the node map, and with it the result of \<open>List\<close>,
  that the manager had before.
\<close>

theorem Add_Remove_fresh:
  assumes "nodes m (Url2NodeName d u) = None"
  shows "nodes (Remove d (Add d m u) u) = nodes m \<and> List (Remove d (Add d m u) u) = List m"
proof -
  have "nodes (Remove d (Add d m u) u) = (nodes m)(Url2NodeName d u := None)"
    using assms by (simp add: Add_def Remove_def Let_def)
  also have "\<dots> = nodes m"
    using assms by (simp add: fun_upd_idem)
  finally show ?thesis by (simp add: List_def)
qed

theorem Add_Remove_fresh_witness:
  "nodes pinned_manager (Url2NodeName table_deps ''c'') = None
   \<and> NewNode ''c'' ''c'' \<in> List (Add table_deps pinned_manager ''c'')
   \<and> List (Remove table_deps (Add table_deps pinned_manager ''c'') ''c'') = List pinned_manager"
proof -
  have f: "nodes pinned_manager (Url2NodeName table_deps ''c'') = None"
    by (simp add: pinned_manager_def table_deps_def)
  have "nodes (Add table_deps pinned_manager ''c'') ''c'' = Some (NewNode ''c'' ''c'')"
    by (simp add: Add_def Let_def pinned_manager_def table_deps_def)
  then have "NewNode ''c'' ''c'' \<in> List (Add table_deps pinned_manager ''c'')"
    unfolding List_def by (rule ranI)
  then show ?thesis
    using Add_Remove_fresh [OF f] f by simp
qed

text \<open>
  C8 as it is stated fails for a url whose name is in the node map: \<open>Add\<close> does nothing,
  \<open>Remove\<close> takes the node out, and \<open>List\<close> no longer has it.
\<close>

theorem Add_Remove_present_counterexample:
  "NewNode ''a'' ''a'' \<in> List pinned_manager
   \<and> NewNode ''a'' ''a'' \<notin> List (Remove table_deps (Add table_deps pinned_manager ''a'') ''a'')"
proof -
  have "nodes pinned_manager ''a'' = Some (NewNode ''a'' ''a'')"
    by (simp add: pinned_manager_def)
  then have 1: "NewNode ''a'' ''a'' \<in> List pinned_manager"
    unfolding List_def by (rule ranI)
  have "nodes (Remove table_deps (Add table_deps pinned_manager ''a'') ''a'') =
      [''b'' \<mapsto> NewNode ''b'' ''b'']"
    by (auto simp: Add_def Remove_def Let_def pinned_manager_def table_deps_def)
  then have 2: "NewNode ''a'' ''a'' \<notin> List (Remove table_deps (Add table_deps pinned_manager ''a'') ''a'')"
    by (simp add: List_def NewNode_def)
  from 1 2 show ?thesis by simp
qed

end
